theory Spec2Isabelle
  imports Main "HOL-Library.Word" "HOL-Library.Monad_Syntax"
begin

unbundle bit_operations_syntax

section \<open>Bit-field macros of \<^verbatim>\<open>bitfield.h\<close>\<close>

text \<open>
  The header defines type-generic macros over the four unsigned types
  \<^verbatim>\<open>bit8_t\<close>, \<^verbatim>\<open>bit16_t\<close>, \<^verbatim>\<open>bit32_t\<close> and \<^verbatim>\<open>bit64_t\<close>. A bit field is an
  \<open>'a word\<close>; the declared widths are those with \<open>LENGTH('a)\<close> in \<open>{8, 16, 32, 64}\<close>.
  A macro that assigns to its argument is a function returning the new value.

  The single-bit and range macros combine the bit field with a \<^verbatim>\<open>bit64_t\<close> by
  \<^verbatim>\<open>&\<close>, \<^verbatim>\<open>|\<close> or \<^verbatim>\<open>^\<close>, so C converts the bit field to 64 bits (\<open>ucast\<close>, zero
  extension), and the assignment converts the 64-bit result back to the type of
  the bit field (\<open>ucast\<close>, truncation).

  Indices, start positions and lengths are non-negative, hence \<open>nat\<close>.
\<close>

type_synonym bit8_t = "8 word"
type_synonym bit16_t = "16 word"
type_synonym bit32_t = "32 word"
type_synonym bit64_t = "64 word"

subsection \<open>Single bits\<close>

text \<open>
  \<^verbatim>\<open>#define BIT(i) ((bit64_t)1 << ((bit64_t)(i) % 64))\<close>

  The cast \<^verbatim>\<open>(bit64_t)(i)\<close> of a non-negative \<open>i\<close> is \<open>word_of_nat i\<close>; the shift
  count is then below 64, so the shift is always defined.
\<close>

definition BIT :: "nat \<Rightarrow> bit64_t" where
  "BIT i = push_bit (unat ((word_of_nat i :: bit64_t) mod 64)) (1 :: bit64_t)"

text \<open>\<^verbatim>\<open>#define SETBIT(bf, i)  ((bf) |= (BIT(i)))\<close>\<close>

definition SETBIT :: "'a::len word \<Rightarrow> nat \<Rightarrow> 'a word" where
  "SETBIT bf i = ucast ((ucast bf :: bit64_t) OR BIT i)"

text \<open>\<^verbatim>\<open>#define NULLBIT(bf, i) ((bf) &= ~(BIT(i)))\<close>\<close>

definition NULLBIT :: "'a::len word \<Rightarrow> nat \<Rightarrow> 'a word" where
  "NULLBIT bf i = ucast ((ucast bf :: bit64_t) AND NOT (BIT i))"

text \<open>\<^verbatim>\<open>#define ISSET(bf, i)   (((bf) & (BIT(i))) != 0)\<close>\<close>

definition ISSET :: "'a::len word \<Rightarrow> nat \<Rightarrow> bool" where
  "ISSET bf i \<longleftrightarrow> (ucast bf :: bit64_t) AND BIT i \<noteq> 0"

text \<open>\<^verbatim>\<open>#define ISNULL(bf, i)  (((bf) & (BIT(i))) == 0)\<close>\<close>

definition ISNULL :: "'a::len word \<Rightarrow> nat \<Rightarrow> bool" where
  "ISNULL bf i \<longleftrightarrow> (ucast bf :: bit64_t) AND BIT i = 0"

text \<open>\<^verbatim>\<open>#define TOGGLEBIT(bf, i) ((bf) ^= (BIT(i)))\<close>\<close>

definition TOGGLEBIT :: "'a::len word \<Rightarrow> nat \<Rightarrow> 'a word" where
  "TOGGLEBIT bf i = ucast ((ucast bf :: bit64_t) XOR BIT i)"

text \<open>\<^verbatim>\<open>#define CLEARBIT(bf, i) NULLBIT(bf, i)\<close>\<close>

definition CLEARBIT :: "'a::len word \<Rightarrow> nat \<Rightarrow> 'a word" where
  "CLEARBIT bf i = NULLBIT bf i"

text \<open>\<^verbatim>\<open>#define GETBIT(bf, i) (ISSET(bf, i) ? 1 : 0)\<close>\<close>

definition GETBIT :: "'a::len word \<Rightarrow> nat \<Rightarrow> int" where
  "GETBIT bf i = (if ISSET bf i then 1 else 0)"

subsection \<open>A bit field from a string of binary digits\<close>

text \<open>
  \<^verbatim>\<open>
  #define BITS(bf, rval_cptr) do {\
      (bf) = 0;\
      const char* _bits_ptr = (rval_cptr);\
      while (*_bits_ptr) {\
          (bf) <<= 1;\
          (bf) |= (*_bits_ptr == '1');\
          _bits_ptr++;\
      }\
  } while(0)
  \<close>

  The argument is the list of the characters the pointer walks over; the
  terminating NUL of the C string follows the last one. The loop leaves at the
  first NUL it reads, so a NUL inside the list ends it early. One round shifts the
  accumulator by one (the bit shifted out of the type is lost in the assignment)
  and ORs in the value of the comparison, 1 or 0.
\<close>

fun BITS_loop :: "'a::len word \<Rightarrow> string \<Rightarrow> 'a word" where
  "BITS_loop bf [] = bf"
| "BITS_loop bf (c # cs) =
     (if c = CHR 0x00 then bf
      else BITS_loop (push_bit 1 bf OR (if c = CHR ''1'' then 1 else 0)) cs)"

definition BITS :: "string \<Rightarrow> 'a::len word" where
  "BITS rval_cptr = BITS_loop 0 rval_cptr"

text \<open>
  The specification's wording of the same operation: start from 0 and, for each
  character from left to right, shift the accumulator left by one and OR in 1
  exactly when the character is \<open>1\<close>.
\<close>

definition ParseBits_spec :: "string \<Rightarrow> 'a::len word" where
  "ParseBits_spec s =
     foldl (\<lambda>acc c. push_bit 1 acc OR (if c = CHR ''1'' then 1 else 0)) 0 s"

subsection \<open>Counting bits\<close>

text \<open>\<^verbatim>\<open>sizeof(bf)\<close>, in bytes, for a bit field of one of the four types.\<close>

definition sizeof :: "'a::len word \<Rightarrow> nat" where
  "sizeof bf = LENGTH('a) div 8"

text \<open>
  The compiler builtins \<^verbatim>\<open>__builtin_popcount(unsigned int)\<close> and
  \<^verbatim>\<open>__builtin_popcountll(unsigned long long)\<close> return the number of 1-bits of
  their argument, as an \<^verbatim>\<open>int\<close>.
\<close>

definition popcount :: "'a::len word \<Rightarrow> nat" where
  "popcount x = length (filter (bit x) [0..<LENGTH('a)])"

definition builtin_popcount :: "32 word \<Rightarrow> int" where
  "builtin_popcount x = int (popcount x)"

definition builtin_popcountll :: "64 word \<Rightarrow> int" where
  "builtin_popcountll x = int (popcount x)"

text \<open>
  With \<^verbatim>\<open>__GNUC__\<close> or \<^verbatim>\<open>__clang__\<close> defined:
  \<^verbatim>\<open>
  #define ONES(bf) \
      ((sizeof(bf) == 1) ? __builtin_popcount((uint8_t)(bf)) : \
       (sizeof(bf) == 2) ? __builtin_popcount((uint16_t)(bf)) : \
       (sizeof(bf) == 4) ? __builtin_popcount((uint32_t)(bf)) : \
       (sizeof(bf) == 8) ? __builtin_popcountll((uint64_t)(bf)) : 0)
  \<close>
\<close>

definition ONES_builtin :: "'a::len word \<Rightarrow> int" where
  "ONES_builtin bf =
     (if sizeof bf = 1 then builtin_popcount (ucast (ucast bf :: 8 word))
      else if sizeof bf = 2 then builtin_popcount (ucast (ucast bf :: 16 word))
      else if sizeof bf = 4 then builtin_popcount (ucast (ucast bf :: 32 word))
      else if sizeof bf = 8 then builtin_popcountll (ucast (ucast bf :: 64 word))
      else 0)"

text \<open>
  Otherwise, Kernighan's loop:
  \<^verbatim>\<open>
  #define ONES(bf) ({ \
      __typeof__(bf) _v = (bf); \
      int _c = 0; \
      while (_v) { _v &= _v - 1; _c++; } \
      _c; \
  })
  \<close>
  \<^verbatim>\<open>_v - 1\<close> is only computed for a non-zero \<^verbatim>\<open>_v\<close>, and the counter makes at most
  64 steps, so neither overflows.
\<close>

function ONES_loop :: "'a::len word \<Rightarrow> int \<Rightarrow> int" where
  "ONES_loop v c = (if v \<noteq> 0 then ONES_loop (v AND (v - 1)) (c + 1) else c)"
  by pat_completeness auto
termination
proof (relation "measure (\<lambda>(v, c). unat v)")
  show "wf (measure (\<lambda>(v :: 'a word, c :: int). unat v))"
    by simp
next
  fix v :: "'a word" and c :: int
  assume "v \<noteq> 0"
  then have "unat (v - 1) < unat v"
    by (simp add: unat_minus_one unat_gt_0)
  moreover have "unat (v AND (v - 1)) \<le> unat (v - 1)"
    by (simp add: word_and_le1 flip: word_le_nat_alt)
  ultimately show "((v AND (v - 1), c + 1), (v, c)) \<in> measure (\<lambda>(v, c). unat v)"
    by simp
qed

declare ONES_loop.simps [simp del]

definition ONES_fallback :: "'a::len word \<Rightarrow> int" where
  "ONES_fallback bf = ONES_loop bf 0"

text \<open>Which of the two definitions a build gets is decided by the preprocessor.\<close>

datatype compiler = GNUC_or_clang | Other_compiler

definition ONES :: "compiler \<Rightarrow> 'a::len word \<Rightarrow> int" where
  "ONES cc bf = (case cc of GNUC_or_clang \<Rightarrow> ONES_builtin bf | Other_compiler \<Rightarrow> ONES_fallback bf)"

text \<open>
  \<^verbatim>\<open>#define ZEROS(bf) ((sizeof(bf) * 8) - ONES(bf))\<close>

  The subtraction is one of \<^verbatim>\<open>size_t\<close>, here 64 bits wide: the count is
  converted to it.
\<close>

type_synonym size_t = "64 word"

definition ZEROS :: "compiler \<Rightarrow> 'a::len word \<Rightarrow> size_t" where
  "ZEROS cc bf = (word_of_nat (sizeof bf) * 8) - word_of_int (ONES cc bf)"

subsection \<open>Ranges of bits\<close>

text \<open>
  C leaves a shift undefined when the count is not less than the width of the
  (promoted) left operand. The range macros shift by counts taken from their
  arguments, so their results are optional: \<open>None\<close> is undefined behaviour.

  \<open>shift_left64\<close> is \<^verbatim>\<open><<\<close> on a \<^verbatim>\<open>bit64_t\<close>. \<open>shift_right\<close> is \<^verbatim>\<open>>>\<close> on a bit
  field, which the integer promotions take to \<^verbatim>\<open>int\<close> (32 bits) when it is
  narrower, and whose result the following \<^verbatim>\<open>&\<close> converts to \<^verbatim>\<open>bit64_t\<close>.
\<close>

definition shift_left64 :: "bit64_t \<Rightarrow> nat \<Rightarrow> bit64_t option" where
  "shift_left64 x n = (if n < 64 then Some (push_bit n x) else None)"

definition shift_right :: "'a::len word \<Rightarrow> nat \<Rightarrow> bit64_t option" where
  "shift_right bf n = (if n < max 32 LENGTH('a) then Some (ucast (drop_bit n bf)) else None)"

text \<open>\<^verbatim>\<open>#define BITMASK(n) (((bit64_t)1 << (n)) - 1)\<close>\<close>

definition BITMASK :: "nat \<Rightarrow> bit64_t option" where
  "BITMASK n = do { p \<leftarrow> shift_left64 1 n; Some (p - 1) }"

text \<open>\<^verbatim>\<open>#define GETBITS(bf, start, len) (((bf) >> (start)) & BITMASK(len))\<close>\<close>

definition GETBITS :: "'a::len word \<Rightarrow> nat \<Rightarrow> nat \<Rightarrow> bit64_t option" where
  "GETBITS bf start len =
     do { x \<leftarrow> shift_right bf start; m \<leftarrow> BITMASK len; Some (x AND m) }"

text \<open>
  \<^verbatim>\<open>
  #define SETBITS(bf, start, len, val) do { \
      (bf) = ((bf) & ~(BITMASK(len) << (start))) | (((val) & BITMASK(len)) << (start)); \
  } while(0)
  \<close>
  \<open>val\<close> is the value of the argument as the \<^verbatim>\<open>&\<close> with the mask converts it
  to \<^verbatim>\<open>bit64_t\<close>.
\<close>

definition SETBITS :: "'a::len word \<Rightarrow> nat \<Rightarrow> nat \<Rightarrow> bit64_t \<Rightarrow> 'a word option" where
  "SETBITS bf start len val =
     do { m \<leftarrow> BITMASK len;
          hole \<leftarrow> shift_left64 m start;
          field \<leftarrow> shift_left64 (val AND m) start;
          Some (ucast (((ucast bf :: bit64_t) AND NOT hole) OR field)) }"

text \<open>\<^verbatim>\<open>#define CLEARBITS(bf, start, len) ((bf) &= ~(BITMASK(len) << (start)))\<close>\<close>

definition CLEARBITS :: "'a::len word \<Rightarrow> nat \<Rightarrow> nat \<Rightarrow> 'a word option" where
  "CLEARBITS bf start len =
     do { m \<leftarrow> BITMASK len;
          hole \<leftarrow> shift_left64 m start;
          Some (ucast ((ucast bf :: bit64_t) AND NOT hole)) }"

section \<open>Properties\<close>

subsection \<open>The mask of one bit\<close>

lemma BIT_index: "unat ((word_of_nat i :: bit64_t) mod 64) = i mod 64"
proof -
  have "unat ((word_of_nat i :: bit64_t) mod 64) = (i mod 2 ^ 64) mod 64"
    by (simp add: unat_mod unat_of_nat)
  also have "\<dots> = i mod 64"
    by (rule mod_mod_cancel) simp
  finally show ?thesis .
qed

lemma BIT_eq: "BIT i = push_bit (i mod 64) 1"
  by (simp add: BIT_def BIT_index)

lemma BIT_pow: "BIT i = 2 ^ (i mod 64)"
  by (simp add: BIT_eq)

lemma bit_BIT: "bit (BIT i) k \<longleftrightarrow> k = i mod 64"
  by (auto simp add: BIT_pow bit_exp_iff)

lemma bit_SETBIT:
  "bit (SETBIT bf i) k \<longleftrightarrow> k < LENGTH('a) \<and> (k < 64 \<and> bit bf k \<or> k = i mod 64)"
  for bf :: "'a::len word"
  by (auto simp add: SETBIT_def bit_ucast_iff bit_or_iff bit_BIT dest: bit_imp_le_length)

lemma bit_NULLBIT:
  "bit (NULLBIT bf i) k \<longleftrightarrow> k < 64 \<and> bit bf k \<and> k \<noteq> i mod 64"
  for bf :: "'a::len word"
  by (auto simp add: NULLBIT_def bit_ucast_iff bit_and_iff bit_not_iff bit_BIT dest: bit_imp_le_length)

lemma bit_TOGGLEBIT:
  "bit (TOGGLEBIT bf i) k \<longleftrightarrow> k < LENGTH('a) \<and> ((k < 64 \<and> bit bf k) \<noteq> (k = i mod 64))"
  for bf :: "'a::len word"
  by (auto simp add: TOGGLEBIT_def bit_ucast_iff bit_xor_iff bit_BIT dest: bit_imp_le_length)

lemma word_neq_0_bit: "w \<noteq> 0 \<longleftrightarrow> (\<exists>k. bit w k)"
  for w :: "'a::len word"
proof
  assume "w \<noteq> 0"
  show "\<exists>k. bit w k"
  proof (rule ccontr)
    assume "\<not> (\<exists>k. bit w k)"
    then have "w = 0" by (intro bit_eqI) simp
    with \<open>w \<noteq> 0\<close> show False by simp
  qed
next
  assume "\<exists>k. bit w k"
  then show "w \<noteq> 0" by auto
qed

lemma ISSET_bit: "ISSET bf i \<longleftrightarrow> bit bf (i mod 64)"
  for bf :: "'a::len word"
  by (auto simp add: ISSET_def word_neq_0_bit bit_and_iff bit_ucast_iff bit_BIT)

lemma ISNULL_bit: "ISNULL bf i \<longleftrightarrow> \<not> bit bf (i mod 64)"
  for bf :: "'a::len word"
  using ISSET_bit [of bf i] by (auto simp add: ISSET_def ISNULL_def)

lemma unat_BIT: "unat (BIT i) = 2 ^ (i mod 64)"
proof -
  have small: "(2::nat) ^ (i mod 64) < 2 ^ 64"
    by (rule power_strict_increasing) simp_all
  have "BIT i = word_of_nat (2 ^ (i mod 64))"
    by (simp add: BIT_pow)
  then have "unat (BIT i) = 2 ^ (i mod 64) mod 2 ^ LENGTH(64)"
    by (simp only: unat_of_nat)
  with small show ?thesis by simp
qed


lemma BIT_shift_defined: "shift_left64 1 (unat ((word_of_nat i :: bit64_t) mod 64)) = Some (BIT i)"
  by (simp add: shift_left64_def BIT_index BIT_pow)

text \<open>
  Claim C2. For every non-negative index \<open>i\<close>, \<open>BIT i\<close> equals \<open>BIT (i mod 64)\<close>; it
  is the 64-bit unsigned value \<open>2 ^ (i mod 64)\<close>. The shift inside the macro is
  defined for every index, so the macro never fails.
\<close>

theorem BIT_wraparound:
  "BIT i = BIT (i mod 64) \<and> BIT i = 2 ^ (i mod 64) \<and> unat (BIT i) = 2 ^ (i mod 64) \<and>
   shift_left64 1 (unat ((word_of_nat i :: bit64_t) mod 64)) = Some (BIT i)"
proof (intro conjI)
  show "BIT i = BIT (i mod 64)" by (simp add: BIT_pow)
  show "BIT i = 2 ^ (i mod 64)" by (rule BIT_pow)
  show "unat (BIT i) = 2 ^ (i mod 64)" by (rule unat_BIT)
  show "shift_left64 1 (unat ((word_of_nat i :: bit64_t) mod 64)) = Some (BIT i)"
    by (rule BIT_shift_defined)
qed

subsection \<open>Setting, clearing and testing one bit\<close>

text \<open>
  Claim C1, as stated: after \<open>SETBIT bf i\<close> the test \<open>ISSET bf i\<close> is true, for every
  width and every index. It fails on an 8-bit field at index 8: the mask \<open>BIT 8\<close>
  is lost when the result is assigned back to the 8-bit field, and the test reads
  bit 8 of the zero-extended field.
\<close>

theorem SETBIT_ISSET_counterexample: "\<not> ISSET (SETBIT (0 :: bit8_t) 8) 8"
  by (simp add: ISSET_def SETBIT_def BIT_def)

text \<open>
  Claim C1, amended. For every bit field \<open>bf\<close> of width \<open>W\<close> and every non-negative
  index \<open>i\<close>: after \<open>SETBIT bf i\<close> the test \<open>ISSET bf i\<close> is true exactly when
  \<open>i mod 64 < W\<close> (for every \<open>i\<close> when \<open>W = 64\<close>); after \<open>CLEARBIT bf i\<close> the test
  \<open>ISSET bf i\<close> is false.
\<close>

theorem SETBIT_ISSET_iff:
  fixes bf :: "'a::len word"
  shows "(ISSET (SETBIT bf i) i \<longleftrightarrow> i mod 64 < LENGTH('a)) \<and> \<not> ISSET (CLEARBIT bf i) i"
  by (simp add: ISSET_bit bit_SETBIT bit_NULLBIT CLEARBIT_def)

theorem SETBIT_ISSET_iff_witness:
  "(ISSET (SETBIT (0x50 :: bit8_t) 67) 67 \<longleftrightarrow> (67 :: nat) mod 64 < LENGTH(8)) \<and>
   (67 :: nat) mod 64 < LENGTH(8) \<and> \<not> ISSET (CLEARBIT (0x5A :: bit8_t) 67) 67"
  using SETBIT_ISSET_iff [where bf = "0x50 :: bit8_t" and i = 67]
    SETBIT_ISSET_iff [where bf = "0x5A :: bit8_t" and i = 67]
  by simp

subsection \<open>Toggling one bit\<close>

text \<open>
  Claim C4. For every bit field \<open>bf\<close> of a declared width and every non-negative
  index \<open>i\<close>, toggling bit \<open>i\<close> twice gives \<open>bf\<close> back.
\<close>

theorem TOGGLEBIT_involution:
  fixes bf :: "'a::len word"
  assumes "LENGTH('a) \<in> {8, 16, 32, 64}"
  shows "TOGGLEBIT (TOGGLEBIT bf i) i = bf"
  using assms by (intro bit_word_eqI) (auto simp add: bit_TOGGLEBIT)

theorem TOGGLEBIT_involution_witness:
  "LENGTH(8) \<in> {8, 16, 32, 64 :: nat} \<and> TOGGLEBIT (TOGGLEBIT (0x5A :: bit8_t) 67) 67 = 0x5A"
  using TOGGLEBIT_involution [where bf = "0x5A :: bit8_t" and i = 67] by simp

subsection \<open>The frame of the single-bit operations\<close>

text \<open>
  Claim C9. For every bit field \<open>bf\<close> of a declared width and every non-negative
  index \<open>i\<close>, each of \<open>SETBIT\<close>, \<open>CLEARBIT\<close> and \<open>TOGGLEBIT\<close> leaves every bit at a
  position other than \<open>i mod 64\<close> as it was.
\<close>

theorem single_bit_frame:
  fixes bf :: "'a::len word"
  assumes "LENGTH('a) \<in> {8, 16, 32, 64}" and "k \<noteq> i mod 64"
  shows "(bit (SETBIT bf i) k \<longleftrightarrow> bit bf k) \<and>
         (bit (CLEARBIT bf i) k \<longleftrightarrow> bit bf k) \<and>
         (bit (TOGGLEBIT bf i) k \<longleftrightarrow> bit bf k)"
  using assms
  by (auto simp add: bit_SETBIT bit_NULLBIT bit_TOGGLEBIT CLEARBIT_def dest: bit_imp_le_length)

theorem single_bit_frame_witness:
  "LENGTH(8) \<in> {8, 16, 32, 64 :: nat} \<and> (4 :: nat) \<noteq> 67 mod 64 \<and>
   (bit (SETBIT (0x5A :: bit8_t) 67) 4 \<longleftrightarrow> bit (0x5A :: bit8_t) 4) \<and>
   (bit (CLEARBIT (0x5A :: bit8_t) 67) 4 \<longleftrightarrow> bit (0x5A :: bit8_t) 4) \<and>
   (bit (TOGGLEBIT (0x5A :: bit8_t) 67) 4 \<longleftrightarrow> bit (0x5A :: bit8_t) 4)"
  using single_bit_frame [where bf = "0x5A :: bit8_t" and k = 4 and i = 67] by simp

subsection \<open>The two bit counts agree with the number of set bits\<close>

lemma bits_double: "{k. bit (2 * n :: nat) k} = Suc ` {k. bit n k}"
proof (rule set_eqI)
  fix k
  show "k \<in> {k. bit (2 * n) k} \<longleftrightarrow> k \<in> Suc ` {k. bit n k}"
    by (cases k) (auto simp add: bit_double_iff image_iff)
qed

lemma bits_Suc_double: "{k. bit (Suc (2 * n)) k} = insert 0 (Suc ` {k. bit n k})"
proof (rule set_eqI)
  fix k
  show "k \<in> {k. bit (Suc (2 * n)) k} \<longleftrightarrow> k \<in> insert 0 (Suc ` {k. bit n k})"
    by (cases k) (auto simp add: bit_0 bit_Suc image_iff)
qed

lemma finite_bits_nat: "finite {k. bit (n::nat) k}"
  by (induction n rule: nat_bit_induct) (simp_all add: bits_double bits_Suc_double)

lemma card_bits_double: "card {k. bit (2 * n :: nat) k} = card {k. bit n k}"
  by (simp add: bits_double card_image)

lemma card_bits_Suc_double: "card {k. bit (Suc (2 * n)) k} = Suc (card {k. bit n k})"
proof -
  have "0 \<notin> Suc ` {k. bit n k}" by auto
  moreover have "finite (Suc ` {k. bit n k})" by (simp add: finite_bits_nat)
  ultimately have "card (insert 0 (Suc ` {k. bit n k})) = Suc (card (Suc ` {k. bit n k}))"
    by (rule card_insert_disjoint [rotated])
  then show ?thesis by (simp add: bits_Suc_double card_image)
qed

lemma and_pred_double: "0 < n \<Longrightarrow> (2 * n) AND (2 * n - 1) = 2 * (n AND (n - 1))" for n :: nat
proof -
  assume "0 < n"
  then have "2 * n - 1 = Suc (2 * (n - 1))" by simp
  then show ?thesis
    by (simp add: and_nat_rec [of "2 * n"])
qed

lemma and_pred_Suc_double: "Suc (2 * n) AND (Suc (2 * n) - 1) = 2 * n"
  by (simp add: and_nat_rec [of "Suc (2 * n)"])

lemma kernighan_step_nat:
  "0 < n \<Longrightarrow> Suc (card {k. bit (n AND (n - 1)) k}) = card {k. bit n k}" for n :: nat
proof (induction n rule: nat_bit_induct)
  case zero
  then show ?case by simp
next
  case (even n)
  then show ?case
    by (simp only: and_pred_double card_bits_double)
next
  case (odd n)
  show ?case
    by (simp only: and_pred_Suc_double card_bits_double card_bits_Suc_double)
qed

lemma bits_unat: "{k. bit (unat w) k} = {k. bit w k}" for w :: "'a::len word"
  by (simp add: bit_unsigned_iff)

lemma kernighan_step:
  "v \<noteq> 0 \<Longrightarrow> Suc (card {k. bit (v AND (v - 1)) k}) = card {k. bit v k}" for v :: "'a::len word"
proof -
  assume "v \<noteq> 0"
  then have pos: "0 < unat v" by (simp add: unat_gt_0)
  have "unat (v AND (v - 1)) = unat v AND (unat v - 1)"
    using \<open>v \<noteq> 0\<close> by (simp add: unsigned_and_eq unat_minus_one)
  then have "{k. bit (v AND (v - 1)) k} = {k. bit (unat v AND (unat v - 1)) k}"
    using bits_unat [of "v AND (v - 1)"] by simp
  then show ?thesis
    using kernighan_step_nat [OF pos] bits_unat [of v] by simp
qed

lemma ONES_loop_count: "ONES_loop v c = c + int (card {k. bit v k})"
proof (induction v c rule: ONES_loop.induct)
  case (1 v c)
  show ?case
  proof (cases "v = 0")
    case True
    then show ?thesis by (simp add: ONES_loop.simps)
  next
    case False
    with "1.IH" have "ONES_loop (v AND (v - 1)) (c + 1) = c + 1 + int (card {k. bit (v AND (v - 1)) k})"
      by simp
    with False kernighan_step [OF False] show ?thesis
      by (subst ONES_loop.simps) simp
  qed
qed

lemma popcount_card: "popcount x = card {k. bit x k}" for x :: "'a::len word"
proof -
  have "{k. bit x k} \<inter> set [0..<LENGTH('a)] = {k. bit x k}"
    by (auto dest: bit_imp_le_length)
  then show ?thesis
    by (simp add: popcount_def distinct_length_filter)
qed

lemma bits_ucast:
  "LENGTH('a) \<le> LENGTH('b) \<Longrightarrow> {k. bit (ucast w :: 'b::len word) k} = {k. bit w k}"
  for w :: "'a::len word"
  by (auto simp add: bit_ucast_iff dest: bit_imp_le_length)

lemma ONES_builtin_count:
  "LENGTH('a) \<in> {8, 16, 32, 64} \<Longrightarrow> ONES_builtin bf = int (card {k. bit bf k})"
  for bf :: "'a::len word"
  by (auto simp add: ONES_builtin_def sizeof_def builtin_popcount_def builtin_popcountll_def
      popcount_card bit_ucast_iff intro!: arg_cong [where f = card] dest: bit_imp_le_length)


lemma ONES_count:
  fixes bf :: "'a::len word"
  assumes "LENGTH('a) \<in> {8, 16, 32, 64}"
  shows "ONES cc bf = int (card {k. bit bf k})"
proof (cases cc)
  case GNUC_or_clang
  then have "ONES cc bf = ONES_builtin bf"
    by (simp only: ONES_def compiler.case)
  then show ?thesis
    by (simp only: ONES_builtin_count [OF assms])
next
  case Other_compiler
  then have "ONES cc bf = ONES_loop bf 0"
    by (simp only: ONES_def compiler.case ONES_fallback_def)
  then show ?thesis
    by (simp only: ONES_loop_count)
qed

lemma card_bits_le: "card {k. bit w k} \<le> LENGTH('a)" for w :: "'a::len word"
proof -
  have "{k. bit w k} \<subseteq> {..<LENGTH('a)}" by (auto dest: bit_imp_le_length)
  then have "card {k. bit w k} \<le> card {..<LENGTH('a)}" by (intro card_mono) simp_all
  then show ?thesis by simp
qed

lemma ZEROS_count:
  fixes bf :: "'a::len word"
  assumes "LENGTH('a) \<in> {8, 16, 32, 64}"
  shows "uint (ZEROS cc bf) = int LENGTH('a) - ONES cc bf"
proof -
  let ?c = "card {k. bit bf k}"
  have le: "?c \<le> LENGTH('a)" by (rule card_bits_le)
  have w: "(word_of_nat (sizeof bf) * 8 :: size_t) = word_of_nat LENGTH('a)"
    using assms by (auto simp add: sizeof_def)
  have "ZEROS cc bf = word_of_nat LENGTH('a) - word_of_nat ?c"
    by (simp add: ZEROS_def w ONES_count [OF assms])
  also have "\<dots> = word_of_nat (LENGTH('a) - ?c)"
    using le by (simp add: of_nat_diff)
  finally have "uint (ZEROS cc bf) = uint (word_of_nat (LENGTH('a) - ?c) :: size_t)"
    by simp
  also have "\<dots> = int (unat (word_of_nat (LENGTH('a) - ?c) :: size_t))"
    by simp
  also have "\<dots> = int (LENGTH('a) - ?c)"
    using assms by (auto simp add: unat_of_nat)
  finally show ?thesis
    using le by (simp add: ONES_count [OF assms])
qed


lemma bits_ones: "{k. bit (- 1 :: 'a::len word) k} = {..<LENGTH('a)}"
  by auto

text \<open>
  Claim C5. For every value \<open>bf\<close> of a declared width \<open>W\<close>, under either definition
  of the macro, \<open>ONES bf\<close> is the number of 1-bits among the \<open>W\<close> bits of \<open>bf\<close> and
  \<open>ZEROS bf\<close> is \<open>W\<close> minus \<open>ONES bf\<close>; so the two add up to \<open>W\<close>, \<open>ONES 0\<close> is 0 and
  \<open>ONES\<close> of the all-ones value is \<open>W\<close>.
\<close>

theorem ONES_ZEROS_count:
  fixes bf :: "'a::len word"
  assumes "LENGTH('a) \<in> {8, 16, 32, 64}"
  shows "ONES cc bf = int (card {k. k < LENGTH('a) \<and> bit bf k}) \<and>
         uint (ZEROS cc bf) = int LENGTH('a) - ONES cc bf \<and>
         ONES cc bf + uint (ZEROS cc bf) = int LENGTH('a) \<and>
         ONES cc (0 :: 'a word) = 0 \<and>
         ONES cc (- 1 :: 'a word) = int LENGTH('a)"
proof -
  have "{k. k < LENGTH('a) \<and> bit bf k} = {k. bit bf k}"
    by (auto dest: bit_imp_le_length)
  then have "ONES cc bf = int (card {k. k < LENGTH('a) \<and> bit bf k})"
    by (simp add: ONES_count [OF assms])
  moreover have "uint (ZEROS cc bf) = int LENGTH('a) - ONES cc bf"
    by (rule ZEROS_count [OF assms])
  moreover have "ONES cc (0 :: 'a word) = 0"
    by (simp add: ONES_count [OF assms])
  moreover have "ONES cc (- 1 :: 'a word) = int LENGTH('a)"
    by (simp add: ONES_count [OF assms] bits_ones)
  ultimately show ?thesis by simp
qed

theorem ONES_ZEROS_count_witness:
  "LENGTH(8) \<in> {8, 16, 32, 64 :: nat} \<and>
   ONES Other_compiler (0xB5 :: bit8_t) = 5 \<and> ONES GNUC_or_clang (0xB5 :: bit8_t) = 5 \<and>
   ZEROS Other_compiler (0xB5 :: bit8_t) = 3 \<and> ZEROS GNUC_or_clang (0xB5 :: bit8_t) = 3 \<and>
   ONES Other_compiler (0xB5 :: bit8_t) + uint (ZEROS Other_compiler (0xB5 :: bit8_t)) = int LENGTH(8) \<and>
   ONES Other_compiler (0xFF :: bit8_t) = 8"
  using ONES_ZEROS_count [where bf = "0xB5 :: bit8_t" and cc = Other_compiler]
  by (simp add: ONES_def ONES_fallback_def ONES_loop.simps ZEROS_def sizeof_def
      ONES_builtin_def builtin_popcount_def popcount_def upt_rec bit_numeral_word_iff)

subsection \<open>Parsing a string of binary digits\<close>

lemma BITS_loop_foldl:
  "CHR 0x00 \<notin> set s \<Longrightarrow>
     BITS_loop bf s = foldl (\<lambda>acc c. push_bit 1 acc OR (if c = CHR ''1'' then 1 else 0)) bf s"
  by (induction s arbitrary: bf) auto

lemma bit_BITS_step:
  "bit (push_bit 1 acc OR (if c = CHR ''1'' then 1 else 0 :: 'a::len word)) k \<longleftrightarrow>
     k < LENGTH('a) \<and> (if k = 0 then c = CHR ''1'' else bit acc (k - 1))"
proof -
  have shifted: "bit (push_bit 1 acc) k \<longleftrightarrow> k < LENGTH('a) \<and> k \<noteq> 0 \<and> bit acc (k - 1)"
    by (simp only: bit_push_bit_iff possible_bit_word) auto
  have digit: "bit (if c = CHR ''1'' then 1 else 0 :: 'a word) k \<longleftrightarrow> k = 0 \<and> c = CHR ''1''"
    by (simp add: bit_1_iff)
  show ?thesis
    by (simp only: bit_or_iff shifted digit) auto
qed

lemma bit_foldl_BITS:
  "bit (foldl (\<lambda>acc c. push_bit 1 acc OR (if c = CHR ''1'' then 1 else 0)) bf s :: 'a::len word) k \<longleftrightarrow>
     k < LENGTH('a) \<and> (if k < length s then rev s ! k = CHR ''1'' else bit bf (k - length s))"
proof -
  define f :: "'a word \<Rightarrow> char \<Rightarrow> 'a word"
    where "f = (\<lambda>acc c. push_bit 1 acc OR (if c = CHR ''1'' then 1 else 0))"
  have step: "bit (f acc c) j \<longleftrightarrow> j < LENGTH('a) \<and> (if j = 0 then c = CHR ''1'' else bit acc (j - 1))"
    for acc c j
    unfolding f_def by (rule bit_BITS_step)
  have main: "bit (foldl f bf s) j \<longleftrightarrow>
      j < LENGTH('a) \<and> (if j < length s then rev s ! j = CHR ''1'' else bit bf (j - length s))"
    for j
  proof (induction s arbitrary: j rule: rev_induct)
    case Nil
    show ?case by (auto dest: bit_imp_le_length)
  next
    case (snoc c s)
    have unfold: "foldl f bf (s @ [c]) = f (foldl f bf s) c"
      by simp
    show ?case
    proof (cases j)
      case 0
      then show ?thesis by (simp only: unfold step) simp
    next
      case (Suc i)
      have "bit (f (foldl f bf s) c) (Suc i) \<longleftrightarrow> Suc i < LENGTH('a) \<and> bit (foldl f bf s) i"
        by (simp only: step) simp
      also have "\<dots> \<longleftrightarrow> Suc i < LENGTH('a) \<and>
          (if i < length s then rev s ! i = CHR ''1'' else bit bf (i - length s))"
        by (simp only: snoc.IH [of i]) auto
      finally show ?thesis
        by (simp only: unfold Suc) simp
    qed
  qed
  from main [of k] show ?thesis
    unfolding f_def .
qed

lemma bit_BITS:
  assumes "CHR 0x00 \<notin> set s"
  shows "bit (BITS s :: 'a::len word) k \<longleftrightarrow>
     k < LENGTH('a) \<and> k < length s \<and> s ! (length s - 1 - k) = CHR ''1''"
proof -
  have "bit (BITS s :: 'a word) k \<longleftrightarrow>
      k < LENGTH('a) \<and> (if k < length s then rev s ! k = CHR ''1'' else bit (0 :: 'a word) (k - length s))"
    unfolding BITS_def BITS_loop_foldl [OF assms] by (rule bit_foldl_BITS)
  then show ?thesis
    by (auto simp add: rev_nth)
qed

text \<open>
  Claim C6. For every character string \<open>s\<close> (a C string: no NUL before its end),
  \<open>BITS\<close> produces the value obtained by starting from 0 and, for each character
  from left to right, shifting the accumulator left by one and OR-ing in 1
  exactly when the character is \<open>1\<close>; any other character contributes 0. The
  leftmost character becomes the most significant produced bit: bit \<open>k\<close> of the
  result is set exactly when \<open>k\<close> is inside the type, inside the string, and the
  character \<open>k\<close> places from the right is \<open>1\<close>. The empty string gives 0,
  \<open>''1011''\<close> gives 11 and \<open>''00001111''\<close> gives 15.
\<close>

theorem BITS_parse:
  fixes s :: string
  assumes "CHR 0x00 \<notin> set s"
  shows "(BITS s :: 'a::len word) = ParseBits_spec s \<and>
         (\<forall>k. bit (BITS s :: 'a word) k \<longleftrightarrow>
            k < LENGTH('a) \<and> k < length s \<and> s ! (length s - 1 - k) = CHR ''1'') \<and>
         (BITS [] :: 'a word) = 0 \<and>
         (BITS ''1011'' :: 'a word) = 11 \<and>
         (BITS ''00001111'' :: 'a word) = 15"
proof (intro conjI allI)
  show "(BITS s :: 'a word) = ParseBits_spec s"
    unfolding BITS_def ParseBits_spec_def by (rule BITS_loop_foldl [OF assms])
  show "bit (BITS s :: 'a word) k \<longleftrightarrow>
      k < LENGTH('a) \<and> k < length s \<and> s ! (length s - 1 - k) = CHR ''1''" for k
    by (rule bit_BITS [OF assms])
  show "(BITS [] :: 'a word) = 0"
    by (simp add: BITS_def)
  show "(BITS ''1011'' :: 'a word) = 11"
    by (simp add: BITS_def)
  show "(BITS ''00001111'' :: 'a word) = 15"
    by (simp add: BITS_def)
qed

theorem BITS_parse_witness:
  "CHR 0x00 \<notin> set ''10x1'' \<and> (BITS ''10x1'' :: bit8_t) = ParseBits_spec ''10x1'' \<and>
   (BITS ''10x1'' :: bit8_t) = 9 \<and> (bit (BITS ''10x1'' :: bit8_t) 3 \<longleftrightarrow> ''10x1'' ! 0 = CHR ''1'') \<and>
   unat (BITS ''1011'' :: bit8_t) = 11 \<and> unat (BITS ''00001111'' :: bit8_t) = 15"
  using BITS_parse [where s = "''10x1''" and 'a = 8]
  by (simp add: BITS_def)

subsection \<open>Reading, writing and clearing a range\<close>

text \<open>
  The range macros written out: each is defined exactly when its shift counts
  are below 64 (below the promoted width for the right shift of \<open>GETBITS\<close>).
\<close>

lemma BITMASK_eq: "BITMASK n = (if n < 64 then Some (mask n) else None)"
  by (simp add: BITMASK_def shift_left64_def mask_eq_exp_minus_1)

lemma SETBITS_eq:
  "SETBITS bf s l v =
     (if l < 64 \<and> s < 64
      then Some (ucast (((ucast bf :: bit64_t) AND NOT (push_bit s (mask l))) OR push_bit s (v AND mask l)))
      else None)"
  by (simp add: SETBITS_def BITMASK_eq shift_left64_def)

lemma CLEARBITS_eq:
  "CLEARBITS bf s l =
     (if l < 64 \<and> s < 64
      then Some (ucast ((ucast bf :: bit64_t) AND NOT (push_bit s (mask l))))
      else None)"
  by (simp add: CLEARBITS_def BITMASK_eq shift_left64_def)

lemma GETBITS_eq:
  "GETBITS bf s l =
     (if s < max 32 LENGTH('a) \<and> l < 64 then Some (ucast (drop_bit s bf) AND mask l) else None)"
  for bf :: "'a::len word"
  by (simp add: GETBITS_def BITMASK_eq shift_right_def)

lemma bit_hole: "bit (push_bit s (mask l) :: bit64_t) k \<longleftrightarrow> k < 64 \<and> s \<le> k \<and> k < s + l"
  by (auto simp add: bit_push_bit_iff bit_mask_iff)

lemma bit_field: "bit (push_bit s (v AND mask l) :: bit64_t) k \<longleftrightarrow> k < 64 \<and> s \<le> k \<and> k < s + l \<and> bit v (k - s)"
  by (auto simp add: bit_push_bit_iff bit_and_iff bit_mask_iff)

lemma bit_written:
  "bit (ucast (((ucast bf :: bit64_t) AND NOT (push_bit s (mask l))) OR push_bit s (v AND mask l)) :: 'a::len word) k \<longleftrightarrow>
     k < LENGTH('a) \<and> k < 64 \<and> (if s \<le> k \<and> k < s + l then bit v (k - s) else bit bf k)"
  by (simp only: bit_ucast_iff bit_or_iff bit_and_iff bit_not_iff bit_hole bit_field) 
    (auto dest: bit_imp_le_length)

lemma bit_cleared:
  "bit (ucast ((ucast bf :: bit64_t) AND NOT (push_bit s (mask l))) :: 'a::len word) k \<longleftrightarrow>
     k < LENGTH('a) \<and> k < 64 \<and> \<not> (s \<le> k \<and> k < s + l) \<and> bit bf k"
  by (simp only: bit_ucast_iff bit_or_iff bit_and_iff bit_not_iff bit_hole bit_field) 
    (auto dest: bit_imp_le_length)


lemma unat_extract:
  fixes bf :: "'a::len word"
  assumes "LENGTH('a) \<le> 64"
  shows "unat ((ucast (drop_bit s bf) :: bit64_t) AND mask l) = (unat bf div 2 ^ s) mod 2 ^ l"
proof -
  have "unat ((ucast (drop_bit s bf) :: bit64_t) AND mask l) = take_bit l (drop_bit s (unat bf))"
  proof (rule bit_eqI)
    fix k
    have "bit bf (s + k) \<Longrightarrow> k < 64"
      using assms by (auto dest: bit_imp_le_length)
    then show "bit (unat ((ucast (drop_bit s bf) :: bit64_t) AND mask l)) k \<longleftrightarrow>
        bit (take_bit l (drop_bit s (unat bf))) k"
      by (auto simp add: bit_unsigned_iff bit_and_iff bit_mask_iff bit_ucast_iff
          bit_take_bit_iff bit_drop_bit_eq)
  qed
  then show ?thesis
    by (simp add: take_bit_eq_mod drop_bit_eq_div)
qed

text \<open>
  Claim C7. For every bit field \<open>bf\<close> of a declared width, every \<open>start\<close> less than
  that width and every \<open>len\<close> with \<open>0 \<le> len \<le> 63\<close>, \<open>GETBITS bf start len\<close> is
  defined and equals \<open>bf\<close> shifted right by \<open>start\<close>, AND the 64-bit mask with the
  low \<open>len\<close> bits set, \<open>BITMASK len = 2 ^ len - 1\<close>; as a number it is
  \<open>(bf div 2 ^ start) mod 2 ^ len\<close>. In particular
  \<open>GETBITS 0b11010110 1 4 = 0b1011\<close>, at each of the four widths.
\<close>

theorem GETBITS_extract:
  fixes bf :: "'a::len word"
  assumes "LENGTH('a) \<in> {8, 16, 32, 64}" and "start < LENGTH('a)" and "len \<le> 63"
  shows "BITMASK len = Some (2 ^ len - 1) \<and>
         GETBITS bf start len = Some (ucast (drop_bit start bf) AND (2 ^ len - 1)) \<and>
         map_option unat (GETBITS bf start len) = Some ((unat bf div 2 ^ start) mod 2 ^ len) \<and>
         GETBITS (0xD6 :: bit8_t) 1 4 = Some 0xB \<and>
         GETBITS (0xD6 :: bit16_t) 1 4 = Some 0xB \<and>
         GETBITS (0xD6 :: bit32_t) 1 4 = Some 0xB \<and>
         GETBITS (0xD6 :: bit64_t) 1 4 = Some 0xB"
proof -
  from assms have le: "LENGTH('a) \<le> 64" and defined: "start < max 32 LENGTH('a)" "len < 64"
    by auto
  have "BITMASK len = Some (2 ^ len - 1)"
    using defined by (simp add: BITMASK_eq mask_eq_exp_minus_1)
  moreover have get: "GETBITS bf start len = Some (ucast (drop_bit start bf) AND mask len)"
    using defined by (simp only: GETBITS_eq) simp
  moreover have "map_option unat (GETBITS bf start len) = Some ((unat bf div 2 ^ start) mod 2 ^ len)"
    by (simp only: get option.map unat_extract [OF le])
  moreover have "GETBITS (0xD6 :: bit8_t) 1 4 = Some 0xB"
    by (simp add: GETBITS_eq mask_eq_exp_minus_1)
  moreover have "GETBITS (0xD6 :: bit16_t) 1 4 = Some 0xB"
    by (simp add: GETBITS_eq mask_eq_exp_minus_1)
  moreover have "GETBITS (0xD6 :: bit32_t) 1 4 = Some 0xB"
    by (simp add: GETBITS_eq mask_eq_exp_minus_1)
  moreover have "GETBITS (0xD6 :: bit64_t) 1 4 = Some 0xB"
    by (simp add: GETBITS_eq mask_eq_exp_minus_1)
  ultimately show ?thesis
    by (simp only: mask_eq_exp_minus_1)
qed

theorem GETBITS_extract_witness:
  "LENGTH(16) \<in> {8, 16, 32, 64 :: nat} \<and> (4 :: nat) < LENGTH(16) \<and> (8 :: nat) \<le> 63 \<and>
   BITMASK 8 = Some 0xFF \<and> GETBITS (0xABCD :: bit16_t) 4 8 = Some 0xBC"
  using GETBITS_extract [where bf = "0xABCD :: bit16_t" and start = 4 and len = 8]
  by simp

lemma SETBITS_bits:
  fixes bf :: "'a::len word"
  assumes "SETBITS bf s l v = Some r"
  shows "bit r k \<longleftrightarrow> k < LENGTH('a) \<and> k < 64 \<and> (if s \<le> k \<and> k < s + l then bit v (k - s) else bit bf k)"
proof -
  from assms have "r = ucast (((ucast bf :: bit64_t) AND NOT (push_bit s (mask l))) OR push_bit s (v AND mask l))"
    by (simp add: SETBITS_eq split: if_splits)
  then show ?thesis
    by (simp only: bit_written)
qed

lemma CLEARBITS_bits:
  fixes bf :: "'a::len word"
  assumes "CLEARBITS bf s l = Some r"
  shows "bit r k \<longleftrightarrow> k < LENGTH('a) \<and> k < 64 \<and> \<not> (s \<le> k \<and> k < s + l) \<and> bit bf k"
proof -
  from assms have "r = ucast ((ucast bf :: bit64_t) AND NOT (push_bit s (mask l)))"
    by (simp add: CLEARBITS_eq split: if_splits)
  then show ?thesis
    by (simp only: bit_cleared)
qed

lemma SETBITS_defined: "SETBITS bf s l v \<noteq> None \<longleftrightarrow> s < 64 \<and> l < 64"
  by (auto simp add: SETBITS_eq)

lemma CLEARBITS_defined: "CLEARBITS bf s l \<noteq> None \<longleftrightarrow> s < 64 \<and> l < 64"
  by (auto simp add: CLEARBITS_eq)

lemma SETBITS_after_SETBITS:
  fixes bf :: "'a::len word"
  assumes "SETBITS bf s l v = Some r"
  shows "SETBITS r s l v = Some r"
proof -
  from assms have d: "s < 64 \<and> l < 64"
    using SETBITS_defined [of bf s l v] by simp
  then obtain r' where r': "SETBITS r s l v = Some r'"
    using SETBITS_defined [of r s l v] by auto
  have "r' = r"
    by (rule bit_word_eqI) (auto simp add: SETBITS_bits [OF r'] SETBITS_bits [OF assms])
  with r' show ?thesis by simp
qed

lemma CLEARBITS_after_CLEARBITS:
  fixes bf :: "'a::len word"
  assumes "CLEARBITS bf s l = Some r"
  shows "CLEARBITS r s l = Some r"
proof -
  from assms have d: "s < 64 \<and> l < 64"
    using CLEARBITS_defined [of bf s l] by simp
  then obtain r' where r': "CLEARBITS r s l = Some r'"
    using CLEARBITS_defined [of r s l] by auto
  have "r' = r"
    by (rule bit_word_eqI) (auto simp add: CLEARBITS_bits [OF r'] CLEARBITS_bits [OF assms])
  with r' show ?thesis by simp
qed

lemma SETBITS_after_CLEARBITS:
  fixes bf :: "'a::len word"
  assumes "CLEARBITS bf s l = Some c"
  shows "SETBITS c s l v = SETBITS bf s l v"
proof -
  from assms have d: "s < 64 \<and> l < 64"
    using CLEARBITS_defined [of bf s l] by simp
  then obtain r where r: "SETBITS bf s l v = Some r"
    using SETBITS_defined [of bf s l v] by auto
  from d obtain r' where r': "SETBITS c s l v = Some r'"
    using SETBITS_defined [of c s l v] by auto
  have "r' = r"
    by (rule bit_word_eqI)
      (auto simp add: SETBITS_bits [OF r'] SETBITS_bits [OF r] CLEARBITS_bits [OF assms])
  with r r' show ?thesis by simp
qed

lemma CLEARBITS_SETBITS_zero: "CLEARBITS bf s l = SETBITS bf s l 0"
  by (simp add: CLEARBITS_eq SETBITS_eq)

lemma GETBITS_of_field:
  fixes r :: "'a::len word"
  assumes "s < LENGTH('a)" and "l < 64" and "s + l \<le> LENGTH('a)" and "LENGTH('a) \<le> 64"
    and field: "\<And>k. k < l \<Longrightarrow> bit r (s + k) \<longleftrightarrow> bit v k"
  shows "GETBITS r s l = Some (v AND (2 ^ l - 1))"
proof -
  have "(ucast (drop_bit s r) :: bit64_t) AND mask l = v AND mask l"
  proof (rule bit_word_eqI)
    fix k assume "k < LENGTH(64)"
    then show "bit ((ucast (drop_bit s r) :: bit64_t) AND mask l) k \<longleftrightarrow> bit (v AND mask l) k"
      using assms(3,4) field [of k]
      by (auto simp add: bit_and_iff bit_mask_iff bit_ucast_iff bit_drop_bit_eq)
  qed
  with assms(1,2) show ?thesis
    by (simp add: GETBITS_eq mask_eq_exp_minus_1)
qed

text \<open>
  Claim C3, as stated: for every bit field \<open>bf\<close>, start \<open>s\<close> and length \<open>l\<close> with
  \<open>s + l\<close> not exceeding the operand width and \<open>l \<le> 63\<close>, \<open>SETBITS bf s l v\<close>
  produces a value. On a 64-bit field the bounds admit the empty field at
  \<open>s = 64\<close>; there both shifts of the macro are by 64, which C leaves undefined
  for a 64-bit operand.
\<close>

theorem SETBITS_start_64_counterexample:
  "(64 :: nat) + 0 \<le> LENGTH(64) \<and> (0 :: nat) \<le> 63 \<and> SETBITS (0 :: bit64_t) 64 0 0 = None"
  by (simp add: SETBITS_def BITMASK_def shift_left64_def)

text \<open>
  Claim C3, amended. For every bit field \<open>bf\<close> of a declared width \<open>W\<close>, start \<open>s\<close>
  and length \<open>l\<close> with \<open>s + l \<le> W\<close>, \<open>l \<le> 63\<close> and \<open>s \<le> 63\<close>, and every value \<open>v\<close>,
  \<open>SETBITS bf s l v\<close> produces a value \<open>r\<close> whose \<open>l\<close>-bit field at position \<open>s\<close>
  equals the low \<open>l\<close> bits of \<open>v\<close> (bit \<open>s + k\<close> of \<open>r\<close> is bit \<open>k\<close> of \<open>v\<close> for
  \<open>k < l\<close>, and \<open>GETBITS r s l\<close> is \<open>v AND (2 ^ l - 1)\<close> when \<open>s < W\<close>), and every bit
  of \<open>bf\<close> outside \<open>[s, s + l)\<close> is unchanged; \<open>SETBITS\<close> after \<open>CLEARBITS\<close> of the
  same range gives the same \<open>r\<close>.
\<close>

theorem SETBITS_field:
  fixes bf :: "'a::len word"
  assumes "LENGTH('a) \<in> {8, 16, 32, 64}" and "s + l \<le> LENGTH('a)" and "l \<le> 63" and "s \<le> 63"
  shows "\<exists>r. SETBITS bf s l v = Some r \<and>
           (\<forall>k<l. bit r (s + k) \<longleftrightarrow> bit v k) \<and>
           (\<forall>k. k < s \<or> s + l \<le> k \<longrightarrow> (bit r k \<longleftrightarrow> bit bf k)) \<and>
           (s < LENGTH('a) \<longrightarrow> GETBITS r s l = Some (v AND (2 ^ l - 1))) \<and>
           do { c \<leftarrow> CLEARBITS bf s l; SETBITS c s l v } = Some r"
proof -
  from assms have le: "LENGTH('a) \<le> 64" and d: "s < 64 \<and> l < 64"
    by auto
  from d obtain r where r: "SETBITS bf s l v = Some r"
    using SETBITS_defined [of bf s l v] by auto
  from d obtain c where c: "CLEARBITS bf s l = Some c"
    using CLEARBITS_defined [of bf s l] by auto
  have field: "bit r (s + k) \<longleftrightarrow> bit v k" if "k < l" for k
    using that assms(2) le by (simp add: SETBITS_bits [OF r])
  have frame: "bit r k \<longleftrightarrow> bit bf k" if "k < s \<or> s + l \<le> k" for k
    using that le by (auto simp add: SETBITS_bits [OF r] dest: bit_imp_le_length)
  have get: "GETBITS r s l = Some (v AND (2 ^ l - 1))" if "s < LENGTH('a)"
    using that d assms(2) le field by (intro GETBITS_of_field) simp_all
  have "do { c \<leftarrow> CLEARBITS bf s l; SETBITS c s l v } = Some r"
    by (simp add: c SETBITS_after_CLEARBITS [OF c] r)
  with r field frame get show ?thesis
    by blast
qed

theorem SETBITS_field_witness:
  "LENGTH(8) \<in> {8, 16, 32, 64 :: nat} \<and> (2 :: nat) + 3 \<le> LENGTH(8) \<and> (3 :: nat) \<le> 63 \<and> (2 :: nat) \<le> 63 \<and>
   SETBITS (0 :: bit8_t) 2 3 5 = Some 0x14 \<and> GETBITS (0x14 :: bit8_t) 2 3 = Some 5 \<and>
   SETBITS (0xFF :: bit8_t) 2 3 0xFD = Some 0xF7 \<and>
   do { c \<leftarrow> CLEARBITS (0xFF :: bit8_t) 2 3; SETBITS c 2 3 0xFD } = Some 0xF7"
  using SETBITS_field [where bf = "0 :: bit8_t" and s = 2 and l = 3 and v = 5]
  by (simp add: SETBITS_eq CLEARBITS_eq GETBITS_eq mask_eq_exp_minus_1)

text \<open>
  Claim C8, as stated: for every bit field \<open>bf\<close> and fixed arguments, invoking
  \<open>SETBIT\<close>, \<open>CLEARBIT\<close>, \<open>CLEARBITS\<close> or \<open>SETBITS\<close> twice in a row produces the same
  value as invoking it once. The claim bounds neither start nor length. With a
  start of 64 a single invocation of \<open>CLEARBITS\<close> or \<open>SETBITS\<close> already shifts a
  \<^verbatim>\<open>bit64_t\<close> by 64, which C leaves undefined: no value is produced.
\<close>

theorem range_idempotent_counterexample:
  "CLEARBITS (0xFF :: bit8_t) 64 3 = None \<and> SETBITS (0xFF :: bit8_t) 64 3 5 = None"
  by (simp add: CLEARBITS_def SETBITS_def BITMASK_def shift_left64_def)

text \<open>
  Claim C8, amended. For every bit field \<open>bf\<close>: \<open>SETBIT\<close> and \<open>CLEARBIT\<close>, with any
  index, invoked twice in a row give the same value as invoked once; and for
  every start \<open>s \<le> 63\<close> and length \<open>l \<le> 63\<close>, \<open>CLEARBITS\<close> and \<open>SETBITS\<close> produce a
  value, and a second invocation with the same arguments on that value produces
  the same value again.
\<close>

theorem range_idempotent:
  fixes bf :: "'a::len word"
  shows "SETBIT (SETBIT bf i) i = SETBIT bf i \<and>
         CLEARBIT (CLEARBIT bf i) i = CLEARBIT bf i \<and>
         (s \<le> 63 \<and> l \<le> 63 \<longrightarrow>
           (\<exists>r. CLEARBITS bf s l = Some r \<and> CLEARBITS r s l = Some r) \<and>
           (\<exists>r. SETBITS bf s l v = Some r \<and> SETBITS r s l v = Some r))"
proof (intro conjI impI)
  show "SETBIT (SETBIT bf i) i = SETBIT bf i"
    by (rule bit_word_eqI) (auto simp add: bit_SETBIT)
  show "CLEARBIT (CLEARBIT bf i) i = CLEARBIT bf i"
    unfolding CLEARBIT_def by (rule bit_word_eqI) (auto simp add: bit_NULLBIT)
next
  assume "s \<le> 63 \<and> l \<le> 63"
  then have d: "s < 64 \<and> l < 64"
    by simp
  from d obtain c where c: "CLEARBITS bf s l = Some c"
    using CLEARBITS_defined [of bf s l] by auto
  from c CLEARBITS_after_CLEARBITS [OF c]
  show "\<exists>r. CLEARBITS bf s l = Some r \<and> CLEARBITS r s l = Some r"
    by blast
  from d obtain r where r: "SETBITS bf s l v = Some r"
    using SETBITS_defined [of bf s l v] by auto
  from r SETBITS_after_SETBITS [OF r]
  show "\<exists>r. SETBITS bf s l v = Some r \<and> SETBITS r s l v = Some r"
    by blast
qed

theorem range_idempotent_witness:
  "(2 :: nat) \<le> 63 \<and> (3 :: nat) \<le> 63 \<and>
   SETBIT (SETBIT (0x50 :: bit8_t) 67) 67 = SETBIT (0x50 :: bit8_t) 67 \<and>
   CLEARBITS (0xFF :: bit8_t) 2 3 = Some 0xE3 \<and> CLEARBITS (0xE3 :: bit8_t) 2 3 = Some 0xE3 \<and>
   SETBITS (0xFF :: bit8_t) 2 3 0xFD = Some 0xF7 \<and> SETBITS (0xF7 :: bit8_t) 2 3 0xFD = Some 0xF7"
  using range_idempotent [where bf = "0xFF :: bit8_t" and s = 2 and l = 3 and v = "0xFD"]
    range_idempotent [where bf = "0x50 :: bit8_t" and i = 67]
  by (simp add: SETBITS_eq CLEARBITS_eq mask_eq_exp_minus_1)

text \<open>
  Claim C10, as stated: for every bit field \<open>bf\<close>, every start and every length
  \<open>len\<close> with \<open>0 \<le> len \<le> 63\<close>, \<open>CLEARBITS bf start len\<close> produces exactly the same
  value as \<open>SETBITS bf start len 0\<close>. With a start of 64 both macros shift a
  \<^verbatim>\<open>bit64_t\<close> by 64, which C leaves undefined: neither produces a value.
\<close>

theorem CLEARBITS_is_SETBITS_zero_counterexample:
  "(3 :: nat) \<le> 63 \<and>
   CLEARBITS (0xFFFF :: bit16_t) 64 3 = None \<and> SETBITS (0xFFFF :: bit16_t) 64 3 0 = None"
  by (simp add: CLEARBITS_def SETBITS_def BITMASK_def shift_left64_def)

text \<open>
  Claim C10, amended. For every bit field \<open>bf\<close>, every start \<open>start \<le> 63\<close> and
  every length \<open>len\<close> with \<open>0 \<le> len \<le> 63\<close>, \<open>CLEARBITS bf start len\<close> produces a
  value, and \<open>SETBITS bf start len 0\<close> produces exactly the same value.
\<close>

theorem CLEARBITS_is_SETBITS_zero:
  fixes bf :: "'a::len word"
  assumes "start \<le> 63" and "len \<le> 63"
  shows "\<exists>r. CLEARBITS bf start len = Some r \<and> SETBITS bf start len 0 = Some r"
proof -
  from assms have "start < 64 \<and> len < 64"
    by simp
  then obtain r where r: "CLEARBITS bf start len = Some r"
    using CLEARBITS_defined [of bf start len] by auto
  then have "SETBITS bf start len 0 = Some r"
    by (simp only: CLEARBITS_SETBITS_zero)
  with r show ?thesis
    by blast
qed

theorem CLEARBITS_is_SETBITS_zero_witness:
  "(2 :: nat) \<le> 63 \<and> (3 :: nat) \<le> 63 \<and>
   CLEARBITS (0xFF :: bit8_t) 2 3 = Some 0xE3 \<and> SETBITS (0xFF :: bit8_t) 2 3 0 = Some 0xE3"
  using CLEARBITS_is_SETBITS_zero [where bf = "0xFF :: bit8_t" and start = 2 and len = 3]
  by (simp add: CLEARBITS_eq SETBITS_eq mask_eq_exp_minus_1)

end
